theory Spec2Isabelle
  imports Main "HOL-Library.Word"
begin

unbundle bit_operations_syntax

section \<open>Fixed-point formats (fp\_lib\_types.h)\<close>

text \<open>
  The library targets the 16-bit dsPIC33 core. The fractional formats are plain machine
  integers: \<open>_Q15\<close> is \<open>int16_t\<close>, \<open>_Q16\<close> is \<open>uint16_t\<close>, \<open>_Q32\<close> and
  \<open>_Q1616\<close> are \<open>uint32_t\<close>. A word carries the bit pattern; \<open>sint\<close> reads it as a
  signed and \<open>unat\<close>/\<open>uint\<close> as an unsigned number.
\<close>

type_synonym Q15 = "16 word"
type_synonym Q16 = "16 word"
type_synonym Q32 = "32 word"
type_synonym Q1616 = "32 word"

text \<open>
  The union \<open>ULong\<close> overlays a 32-bit value with its low and high 16-bit words; a
  32-bit variable lives in a register pair whose second register (\<open>%d[...]\<close> in the
  inline assembly) is the high word.
\<close>

definition ULong_low :: "32 word \<Rightarrow> 16 word" where
  "ULong_low v = ucast v"

definition ULong_high :: "32 word \<Rightarrow> 16 word" where
  "ULong_high v = ucast (drop_bit 16 v)"

definition ULong_join :: "16 word \<Rightarrow> 16 word \<Rightarrow> 32 word" where
  "ULong_join hi lo = push_bit 16 (ucast hi) OR ucast lo"

section \<open>Instructions and compiler built-ins used by the library\<close>

text \<open>\<open>__builtin_muluu\<close> (\<open>mul.uu\<close>): unsigned 16 x 16 -> 32 bit product.\<close>

definition builtin_muluu :: "16 word \<Rightarrow> 16 word \<Rightarrow> 32 word" where
  "builtin_muluu a b = ucast a * ucast b"

text \<open>\<open>mulw.uu\<close>: unsigned 16 x 16 bit product truncated to its low 16 bits.\<close>

definition mulw_uu :: "16 word \<Rightarrow> 16 word \<Rightarrow> 16 word" where
  "mulw_uu a b = a * b"

text \<open>
  \<open>mul.us Wb, Ws, Wnd\<close>: product of the unsigned \<open>Wb\<close> and the signed \<open>Ws\<close>, 32 bits
  wide, written to the register pair \<open>Wnd\<close> (low word) and \<open>Wnd+1\<close> (high word).
\<close>

definition mul_us :: "16 word \<Rightarrow> 16 word \<Rightarrow> 32 word" where
  "mul_us wb ws = ucast wb * scast ws"

text \<open>
  The divide instructions, each run to completion by its \<open>repeat #0x11\<close> prefix. They
  leave the quotient in \<open>w0\<close> and the remainder in \<open>w1\<close>. A zero divisor raises the
  arithmetic error trap; a fractional quotient that does not fit Q0.15 sets the overflow
  flag and leaves no meaningful result. Both are modelled as faults.
\<close>

datatype fault = MathErrorTrap | DivideOverflow

definition div_u :: "16 word \<Rightarrow> 16 word \<Rightarrow> fault + (16 word \<times> 16 word)" where
  "div_u wm wn = (if wn = 0 then Inl MathErrorTrap else Inr (wm div wn, wm mod wn))"

text \<open>
  \<open>divf Wm, Wn\<close>: signed fractional divide; the quotient is the Q0.15 number
  \<open>Wm / Wn\<close>, that is \<open>(Wm * 2^15) / Wn\<close> truncated towards zero, and the remainder
  has the sign of the dividend.
\<close>

definition divf :: "16 word \<Rightarrow> 16 word \<Rightarrow> fault + (16 word \<times> 16 word)" where
  "divf wm wn =
     (if wn = 0 then Inl MathErrorTrap
      else
        let n = sint wm * 2 ^ 15;
            d = sint wn;
            q = sgn n * sgn d * (\<bar>n\<bar> div \<bar>d\<bar>)
        in if q < - (2 ^ 15) \<or> 2 ^ 15 \<le> q then Inl DivideOverflow
           else Inr (word_of_int q, word_of_int (n - q * d)))"

subsection \<open>DSP engine\<close>

text \<open>
  The accumulator is 40 bits wide and is modelled by its signed value. The multiplier
  runs in signed fractional mode, as the Q0.15 arithmetic of the library presupposes: the
  product of two 16-bit operands is shifted left by one bit. The remaining mode bits of
  the core control register are parameters: \<open>RND\<close> selects conventional (biased)
  instead of convergent rounding, \<open>SATDW\<close> saturates a store of the accumulator,
  \<open>SATA\<close> saturates the accumulator itself, to 1.31 or (with \<open>ACCSAT\<close>) to 9.31.
\<close>

record CORCON =
  RND :: bool
  SATDW :: bool
  SATA :: bool
  ACCSAT :: bool

text \<open>The register after a device reset: only \<open>SATDW\<close> is set.\<close>

definition CORCON_reset :: CORCON where
  "CORCON_reset = \<lparr>RND = False, SATDW = True, SATA = False, ACCSAT = False\<rparr>"

definition clamp :: "int \<Rightarrow> int \<Rightarrow> int \<Rightarrow> int" where
  "clamp lo hi v = (if v < lo then lo else if hi < v then hi else v)"

definition acc_write :: "CORCON \<Rightarrow> int \<Rightarrow> int" where
  "acc_write c v =
     (if SATA c then
        (if ACCSAT c then clamp (- (2 ^ 39)) (2 ^ 39 - 1) v
         else clamp (- (2 ^ 31)) (2 ^ 31 - 1) v)
      else signed_take_bit 39 v)"

definition lac :: "16 word \<Rightarrow> int" where
  "lac ws = sint ws * 2 ^ 16"

definition mac :: "CORCON \<Rightarrow> int \<Rightarrow> 16 word \<Rightarrow> 16 word \<Rightarrow> int" where
  "mac c acc wm wn = acc_write c (acc + 2 * (sint wm * sint wn))"

definition msc :: "CORCON \<Rightarrow> int \<Rightarrow> 16 word \<Rightarrow> 16 word \<Rightarrow> int" where
  "msc c acc wm wn = acc_write c (acc - 2 * (sint wm * sint wn))"

text \<open>
  \<open>sac.r Acc, #0, Wd\<close>: round the accumulator at bit 16 and store its bits 31..16. The
  low word decides: above \<open>0x8000\<close> the high part is incremented, below it is kept, and
  at exactly \<open>0x8000\<close> conventional rounding increments while convergent rounding
  increments only an odd high part.
\<close>

definition sac_r :: "CORCON \<Rightarrow> int \<Rightarrow> 16 word" where
  "sac_r c acc =
     (let lo = acc mod 2 ^ 16;
          hi = acc div 2 ^ 16;
          r = (if 0x8000 < lo \<or> (lo = 0x8000 \<and> (RND c \<or> odd hi)) then hi + 1 else hi)
      in if SATDW c then word_of_int (clamp (- (2 ^ 15)) (2 ^ 15 - 1) r) else word_of_int r)"

section \<open>Type conversion (fp\_lib\_typeconv.h)\<close>

text \<open>
  \<open>_Q16 res = (arg << 1) + (arg >> 14)\<close>. The operand is promoted to \<open>int\<close>, the
  right shift of a signed value is arithmetic, and the sum is stored in a 16-bit unsigned
  variable, so only its low 16 bits matter.
\<close>

definition convert_Q15_Q16_Naive :: "Q15 \<Rightarrow> Q16" where
  "convert_Q15_Q16_Naive arg = push_bit 1 arg + signed_drop_bit 14 arg"

definition convert_Q15_Q16 :: "Q15 \<Rightarrow> Q16" where
  "convert_Q15_Q16 arg =
     (let res = convert_Q15_Q16_Naive arg;
          sat = NOT (signed_drop_bit 15 arg)
      in res AND sat)"

definition convert_Q16_Q15 :: "Q16 \<Rightarrow> Q15" where
  "convert_Q16_Q15 arg = drop_bit 1 arg"

section \<open>Absolute value (fp\_lib\_abs.h)\<close>

text \<open>
  One binding per instruction: \<open>cpsne\<close> skips the \<open>mov\<close> unless \<open>val\<close> equals the
  mask \<open>0x8000\<close>; \<open>asr\<close> spreads the sign bit over the mask; \<open>add\<close> and \<open>xor\<close>
  negate a negative value.
\<close>

definition abs_Q15 :: "Q15 \<Rightarrow> Q15" where
  "abs_Q15 arg =
     (let val = arg;
          mask = 0x8000;
          val = (if val = mask then 0x7FFF else val);
          mask = signed_drop_bit 15 val;
          val = mask + val;
          val = mask XOR val
      in val)"

section \<open>Multiplication (fp\_lib\_mul.h)\<close>

definition mul_Q1616_Q16 :: "Q1616 \<Rightarrow> Q16 \<Rightarrow> Q1616" where
  "mul_Q1616_Q16 arg1 arg2 =
     (let res = builtin_muluu (ULong_high arg1) arg2;
          temp = builtin_muluu (ULong_low arg1) arg2;
          res = res + ucast (ULong_high temp)
      in res)"

text \<open>
  The assembly multiplies the high word of \<open>arg1\<close> by \<open>arg2\<close> with \<open>mulw.uu\<close> and
  adds the 16-bit product to the high word of \<open>res\<close> only.
\<close>

definition mul_Q1616_UINT :: "Q1616 \<Rightarrow> 16 word \<Rightarrow> Q1616" where
  "mul_Q1616_UINT arg1 arg2 =
     (let res = builtin_muluu (ULong_low arg1) arg2;
          w0 = mulw_uu (ULong_high arg1) arg2;
          res = ULong_join (w0 + ULong_high res) (ULong_low res)
      in res)"

definition mul_Q1616_Q1616 :: "Q1616 \<Rightarrow> Q1616 \<Rightarrow> Q1616" where
  "mul_Q1616_Q1616 arg1 arg2 =
     mul_Q1616_UINT arg1 (ULong_high arg2) + mul_Q1616_Q16 arg1 (ULong_low arg2)"

section \<open>Division (fp\_lib\_div.h)\<close>

definition div_Q16_Q16 :: "Q16 \<Rightarrow> Q16 \<Rightarrow> fault + Q1616" where
  "div_Q16_Q16 num den =
     (case div_u num den of
        Inl f \<Rightarrow> Inl f
      | Inr (w0, w1) \<Rightarrow>
          let res_high = w0;
              w1 = drop_bit 1 w1;
              den = drop_bit 1 den
          in (case divf w1 den of
                Inl f \<Rightarrow> Inl f
              | Inr (w0, w1) \<Rightarrow> Inr (ULong_join res_high (push_bit 1 w0))))"

section \<open>Interpolation (fp\_lib\_interp.h)\<close>

text \<open>The position is handed to the assembly as \<open>x >> 1\<close>, a non-negative Q0.15 number.\<close>

definition interpLinear :: "CORCON \<Rightarrow> Q15 \<Rightarrow> Q15 \<Rightarrow> Q16 \<Rightarrow> Q15" where
  "interpLinear c y1 y2 x =
     (let x = drop_bit 1 x;
          A = lac y1;
          A = msc c A y1 x;
          A = mac c A y2 x
      in sac_r c A)"

section \<open>Sine (fp\_lib\_trig.h)\<close>

definition table :: "Q15 list" where
  "table = [
     804, 0, 804, 804, 802, 1608, 802, 2410, 799, 3212, 797, 4011, 794, 4808, 791, 5602,
     786, 6393, 783, 7179, 777, 7962, 773, 8739, 766, 9512, 761, 10278, 754, 11039, 746, 11793,
     740, 12539, 731, 13279, 722, 14010, 714, 14732, 705, 15446, 695, 16151, 684, 16846, 674, 17530,
     664, 18204, 651, 18868, 640, 19519, 628, 20159, 616, 20787, 602, 21403, 589, 22005, 576, 22594,
     561, 23170, 548, 23731, 532, 24279, 518, 24811, 503, 25329, 487, 25832, 471, 26319, 455, 26790,
     438, 27245, 422, 27683, 405, 28105, 388, 28510, 370, 28898, 353, 29268, 335, 29621, 317, 29956,
     298, 30273, 281, 30571, 261, 30852, 243, 31113, 224, 31356, 205, 31580, 186, 31785, 166, 31971,
     148, 32137, 127, 32285, 109, 32412, 88, 32521, 69, 32609, 50, 32678, 29, 32728, 10, 32757,
     - 10, 32767, - 29, 32757, - 50, 32728, - 69, 32678, - 88, 32609, - 109, 32521, - 127, 32412, - 148, 32285,
     - 166, 32137, - 186, 31971, - 205, 31785, - 224, 31580, - 243, 31356, - 261, 31113, - 281, 30852, - 298, 30571,
     - 317, 30273, - 335, 29956, - 353, 29621, - 370, 29268, - 388, 28898, - 405, 28510, - 422, 28105, - 438, 27683,
     - 455, 27245, - 471, 26790, - 487, 26319, - 503, 25832, - 518, 25329, - 532, 24811, - 548, 24279, - 561, 23731,
     - 576, 23170, - 589, 22594, - 602, 22005, - 616, 21403, - 628, 20787, - 640, 20159, - 651, 19519, - 664, 18868,
     - 674, 18204, - 684, 17530, - 695, 16846, - 705, 16151, - 714, 15446, - 722, 14732, - 731, 14010, - 740, 13279,
     - 746, 12539, - 754, 11793, - 761, 11039, - 766, 10278, - 773, 9512, - 777, 8739, - 783, 7962, - 786, 7179,
     - 791, 6393, - 794, 5602, - 797, 4808, - 799, 4011, - 802, 3212, - 802, 2410, - 804, 1608, - 804, 804,
     - 804, 0, - 804, - 804, - 802, - 1608, - 802, - 2410, - 799, - 3212, - 797, - 4011, - 794, - 4808, - 791, - 5602,
     - 786, - 6393, - 783, - 7179, - 777, - 7962, - 773, - 8739, - 766, - 9512, - 761, - 10278, - 754, - 11039, - 746, - 11793,
     - 740, - 12539, - 731, - 13279, - 722, - 14010, - 714, - 14732, - 705, - 15446, - 695, - 16151, - 684, - 16846, - 674, - 17530,
     - 664, - 18204, - 651, - 18868, - 640, - 19519, - 628, - 20159, - 616, - 20787, - 602, - 21403, - 589, - 22005, - 576, - 22594,
     - 561, - 23170, - 548, - 23731, - 532, - 24279, - 518, - 24811, - 503, - 25329, - 487, - 25832, - 471, - 26319, - 455, - 26790,
     - 438, - 27245, - 422, - 27683, - 405, - 28105, - 388, - 28510, - 370, - 28898, - 353, - 29268, - 335, - 29621, - 317, - 29956,
     - 298, - 30273, - 281, - 30571, - 261, - 30852, - 243, - 31113, - 224, - 31356, - 205, - 31580, - 186, - 31785, - 166, - 31971,
     - 148, - 32137, - 127, - 32285, - 109, - 32412, - 88, - 32521, - 69, - 32609, - 50, - 32678, - 29, - 32728, - 10, - 32757,
     10, - 32767, 29, - 32757, 50, - 32728, 69, - 32678, 88, - 32609, 109, - 32521, 127, - 32412, 148, - 32285,
     166, - 32137, 186, - 31971, 205, - 31785, 224, - 31580, 243, - 31356, 261, - 31113, 281, - 30852, 298, - 30571,
     317, - 30273, 335, - 29956, 353, - 29621, 370, - 29268, 388, - 28898, 405, - 28510, 422, - 28105, 438, - 27683,
     455, - 27245, 471, - 26790, 487, - 26319, 503, - 25832, 518, - 25329, 532, - 24811, 548, - 24279, 561, - 23731,
     576, - 23170, 589, - 22594, 602, - 22005, 616, - 21403, 628, - 20787, 640, - 20159, 651, - 19519, 664, - 18868,
     674, - 18204, 684, - 17530, 695, - 16846, 705, - 16151, 714, - 15446, 722, - 14732, 731, - 14010, 740, - 13279,
     746, - 12539, 754, - 11793, 761, - 11039, 766, - 10278, 773, - 9512, 777, - 8739, 783, - 7962, 786, - 7179,
     791, - 6393, 794, - 5602, 797, - 4808, 799, - 4011, 802, - 3212, 802, - 2410, 804, - 1608, 804, - 804]"

text \<open>
  \<open>yTable\<close> is kept as the byte offset of the pointer from the start of the table, so
  that \<open>[yTable]\<close> reads the element \<open>yTable div 2\<close>. The result operand \<open>y\<close> is bound
  to \<open>w2\<close>, hence \<open>mul.us\<close> leaves the low word of the product in \<open>y\<close> and the high
  word in \<open>w3\<close>.
\<close>

definition sin_Q15 :: "Q15 \<Rightarrow> Q15" where
  "sin_Q15 x =
     (let yTable = 0;
          y = drop_bit 8 x;
          y = push_bit 2 y;
          yTable = yTable + unat y;
          x = push_bit 8 x;
          prod = mul_us x (table ! (yTable div 2));
          yTable = yTable + 2;
          w3 = ULong_high prod;
          y = w3 + table ! (yTable div 2)
      in y)"

text \<open>The intercepts \<open>y0[0], y0[1], ...\<close> of a table of \<open>dy\<close>/\<open>y0\<close> pairs, in index order.\<close>

fun y0s :: "'a list \<Rightarrow> 'a list" where
  "y0s (dy # y0 # rest) = y0 # y0s rest"
| "y0s _ = []"

definition intercepts :: "int list" where
  "intercepts = map sint (y0s table)"

text \<open>
  Within a segment the result runs from \<open>y0\<close> towards \<open>y0 + dy\<close>; the offset
  \<open>dy * f div 256\<close> is extreme at \<open>f = 0\<close> or at \<open>f = 255\<close>. A segment is in range
  when both ends avoid \<open>- 32768\<close>.
\<close>

definition segment_in_range :: "Q15 \<Rightarrow> Q15 \<Rightarrow> bool" where
  "segment_in_range dy y0 =
     (- 32767 \<le> sint y0 + min 0 (sint dy * 255 div 256) \<and>
      sint y0 + max 0 (sint dy * 255 div 256) \<le> 32767)"

fun all_pairs :: "('a \<Rightarrow> 'a \<Rightarrow> bool) \<Rightarrow> 'a list \<Rightarrow> bool" where
  "all_pairs P (dy # y0 # rest) = (P dy y0 \<and> all_pairs P rest)"
| "all_pairs P _ = True"

text \<open>
  A sequence that is non-decreasing and then non-increasing: it splits at some position
  into a non-decreasing front and a non-increasing rest.
\<close>

definition up_then_down :: "int list \<Rightarrow> bool" where
  "up_then_down ys =
     list_ex (\<lambda>k. sorted (take k ys) \<and> sorted (rev (drop k ys))) [0 ..< Suc (length ys)]"

section \<open>Auxiliary facts about 16-bit words\<close>

lemma signed_drop_bit_15: "signed_drop_bit 15 (x :: 16 word) = (if sint x < 0 then - 1 else 0)"
proof -
  have "signed_drop_bit 15 x = (if bit x 15 then - 1 else 0)"
    by (rule bit_word_eqI) (auto simp add: bit_signed_drop_bit_iff not_le)
  then show ?thesis using bit_last_iff [of x] by simp
qed

lemma sint16: "sint (x :: 16 word) = (if uint x < 32768 then uint x else uint x - 65536)"
proof -
  have b: "0 \<le> uint x" "uint x < 65536"
    using uint_lt2p [of x] by simp_all
  have s: "sint x = (uint x + 32768) mod 65536 - 32768"
    by (simp add: sint_uint signed_take_bit_eq_take_bit_shift take_bit_eq_mod)
  show ?thesis
  proof (cases "uint x < 32768")
    case True
    then have "(uint x + 32768) mod 65536 = uint x + 32768"
      using b by (intro mod_pos_pos_trivial) simp_all
    then show ?thesis using True s by simp
  next
    case False
    then have "(uint x + 32768) mod 65536 = uint x - 32768"
      using b by (intro int_mod_pos_eq [where q = 1]) simp_all
    then show ?thesis using False s by simp
  qed
qed

lemma unat_nonneg16: "0 \<le> sint (x :: 16 word) \<Longrightarrow> unat x < 32768"
proof -
  assume a: "0 \<le> sint x"
  have b: "uint x < 65536"
    using uint_lt2p [of x] by simp
  have "uint x < 32768"
  proof (rule ccontr)
    assume "\<not> uint x < 32768"
    then have "sint x = uint x - 65536" by (simp add: sint16)
    then show False using a b by simp
  qed
  then have "int (unat x) < int 32768" by simp
  then show ?thesis by (simp only: of_nat_less_iff)
qed

lemma sint_nonneg16: "0 \<le> sint (x :: 16 word) \<Longrightarrow> sint x = int (unat x)"
proof -
  assume a: "0 \<le> sint x"
  have "uint x < 32768"
  proof (rule ccontr)
    assume "\<not> uint x < 32768"
    then have "sint x = uint x - 65536" by (simp add: sint16)
    then show False using a uint_lt2p [of x] by simp
  qed
  then have "sint x = uint x" by (simp add: sint16)
  then show ?thesis by simp
qed

section \<open>Type conversion\<close>

lemma naive_value:
  assumes "0 \<le> sint arg"
  shows "unat (convert_Q15_Q16_Naive arg) = 2 * unat arg + (if unat arg < 0x4000 then 0 else 1)"
proof -
  have b: "unat arg < 32768" using assms by (rule unat_nonneg16)
  have sd: "signed_drop_bit 14 arg = drop_bit 14 arg"
    using assms bit_last_iff [of arg]
    by (intro bit_word_eqI)
      (auto simp add: bit_signed_drop_bit_iff bit_drop_bit_eq not_le dest: bit_imp_le_length)
  have "unat (convert_Q15_Q16_Naive arg) =
      (unat arg * 2 mod 65536 + unat arg div 16384 mod 65536) mod 65536"
    by (simp add: convert_Q15_Q16_Naive_def sd unat_word_ariths unat_drop_bit_eq
        drop_bit_eq_div push_bit_eq_mult mult.commute)
  then show ?thesis using b by (simp split: if_splits) linarith
qed

lemma convert_Q15_Q16_cases:
  "convert_Q15_Q16 x = (if sint x < 0 then 0 else convert_Q15_Q16_Naive x)"
  by (simp add: convert_Q15_Q16_def Let_def signed_drop_bit_15)

lemma roundtrip_exact:
  assumes "0 \<le> sint x"
  shows "convert_Q16_Q15 (convert_Q15_Q16 x) = x"
proof -
  have "unat (convert_Q16_Q15 (convert_Q15_Q16 x)) = unat (convert_Q15_Q16_Naive x) div 2"
    using assms
    by (simp add: convert_Q16_Q15_def convert_Q15_Q16_cases unat_drop_bit_eq drop_bit_eq_div unat_div_distrib)
  also have "\<dots> = unat x"
    by (simp add: naive_value [OF assms])
  finally show ?thesis by (simp only: word_unat_eq_iff)
qed

text \<open>
  Claim C4: for every negative Q0.15 input the saturating conversion
  \<open>convert_Q15_Q16\<close> returns exactly 0, and for every non-negative input it returns
  exactly the value of the naive conversion \<open>convert_Q15_Q16_Naive\<close>.
\<close>

theorem convert_Q15_Q16_saturates:
  "(sint x < 0 \<longrightarrow> convert_Q15_Q16 x = 0) \<and>
   (0 \<le> sint x \<longrightarrow> convert_Q15_Q16 x = convert_Q15_Q16_Naive x)"
  by (simp add: convert_Q15_Q16_cases)

theorem convert_Q15_Q16_saturates_witness:
  "sint (- 5 :: Q15) < 0 \<and> convert_Q15_Q16 (- 5) = 0 \<and>
   0 \<le> sint (5 :: Q15) \<and> convert_Q15_Q16 5 = convert_Q15_Q16_Naive 5"
  using convert_Q15_Q16_saturates [of "- 5"] convert_Q15_Q16_saturates [of 5]
  by simp

text \<open>
  Claim C5, as stated: for every non-negative Q0.15 input the naive conversion returns
  exactly \<open>2 * arg\<close> as a 16-bit unsigned pattern. The code adds \<open>arg >> 14\<close> to the
  shifted value, so the claim fails from \<open>0x4000\<close> on.
\<close>

theorem convert_Q15_Q16_Naive_not_double:
  "0 \<le> sint (0x4000 :: Q15) \<and> convert_Q15_Q16_Naive 0x4000 = 0x8001 \<and>
   convert_Q15_Q16_Naive 0x4000 \<noteq> 2 * 0x4000"
  by (simp add: convert_Q15_Q16_Naive_def)

text \<open>
  Claim C5, amended: for every non-negative Q0.15 input \<open>arg\<close> the naive conversion
  returns \<open>2 * arg + (arg >> 14)\<close>, that is \<open>2 * arg\<close> below \<open>0x4000\<close> and
  \<open>2 * arg + 1\<close> from \<open>0x4000\<close> to \<open>0x7FFF\<close>.
\<close>

theorem convert_Q15_Q16_Naive_value:
  "0 \<le> sint arg \<Longrightarrow>
   unat (convert_Q15_Q16_Naive arg) = 2 * unat arg + (if unat arg < 0x4000 then 0 else 1)"
  by (rule naive_value)

theorem convert_Q15_Q16_Naive_value_witness:
  "0 \<le> sint (0x4000 :: Q15) \<and> unat (convert_Q15_Q16_Naive 0x4000) = 2 * unat (0x4000 :: Q15) + 1"
  using convert_Q15_Q16_Naive_value [of "0x4000"] by simp

text \<open>
  Claim C6: for every \<open>x\<close> in \<open>[0, 0x7FFF]\<close>, converting from Q0.15 to Q0.16 and back
  yields a value that differs from \<open>x\<close> by at most 1 LSB.
\<close>

theorem convert_roundtrip:
  "0 \<le> sint x \<Longrightarrow> \<bar>sint (convert_Q16_Q15 (convert_Q15_Q16 x)) - sint x\<bar> \<le> 1"
  by (simp add: roundtrip_exact)

theorem convert_roundtrip_witness:
  "0 \<le> sint (0x7FFF :: Q15) \<and>
   \<bar>sint (convert_Q16_Q15 (convert_Q15_Q16 0x7FFF)) - sint (0x7FFF :: Q15)\<bar> \<le> 1"
  using convert_roundtrip [of "0x7FFF"] by simp

section \<open>Absolute value\<close>

lemma abs_Q15_cases:
  "abs_Q15 x = (if x = 0x8000 then 0x7FFF else if sint x < 0 then - x else x)"
  by (simp add: abs_Q15_def Let_def signed_drop_bit_15 not_eq_complement)

lemma sint_minus16:
  assumes "x \<noteq> (0x8000 :: 16 word)"
  shows "sint (- x) = - sint x"
proof -
  have "sint x \<noteq> - 32768"
  proof
    assume "sint x = - 32768"
    then have "word_of_int (sint x) = (word_of_int (- 32768) :: 16 word)" by simp
    then show False using assms by simp
  qed
  then have "- 32768 < sint x" "sint x < 32768"
    using sint_greater_eq [of x] sint_less [of x] by simp_all
  then show ?thesis
    by (simp add: sint_word_ariths signed_take_bit_int_eq_self)
qed

text \<open>
  Claim C3: \<open>abs_Q15 0x8000\<close> is \<open>0x7FFF\<close>; for every other 16-bit input the result
  is the two's-complement absolute value (the negation if the sign bit is set, the input
  otherwise); in particular \<open>abs_Q15 (-5) = 5\<close> and \<open>abs_Q15 5 = 5\<close>.
\<close>

theorem abs_Q15_spec:
  "abs_Q15 0x8000 = 0x7FFF \<and>
   (x \<noteq> 0x8000 \<longrightarrow>
      abs_Q15 x = (if bit x 15 then - x else x) \<and> sint (abs_Q15 x) = \<bar>sint x\<bar>) \<and>
   abs_Q15 (- 5) = 5 \<and> abs_Q15 5 = 5"
proof -
  have "sint (abs_Q15 x) = \<bar>sint x\<bar>" if "x \<noteq> 0x8000"
    using that by (simp add: abs_Q15_cases sint_minus16)
  moreover have "bit x 15 \<longleftrightarrow> sint x < 0"
    using bit_last_iff [of x] by simp
  ultimately show ?thesis
    by (simp add: abs_Q15_cases)
qed

theorem abs_Q15_spec_witness:
  "(- 7 :: Q15) \<noteq> 0x8000 \<and> abs_Q15 (- 7) = 7 \<and> sint (abs_Q15 (- 7)) = 7"
  using abs_Q15_spec [of "- 7"] by simp

section \<open>Multiplication\<close>

lemma unat_ULong_low: "unat (ULong_low v) = unat v mod 65536"
  by (simp add: ULong_low_def unsigned_ucast_eq take_bit_eq_mod)

lemma unat_ULong_high: "unat (ULong_high v) = unat v div 65536"
proof -
  have "unat v < 2 ^ 32" using unsigned_less [of v, where 'a = nat] by simp
  then have "unat v div 65536 < 65536" by simp
  then show ?thesis
    by (simp add: ULong_high_def unsigned_ucast_eq take_bit_eq_mod unat_drop_bit_eq drop_bit_eq_div
        unat_div_distrib)
qed

lemma unat_ucast_16_32: "unat (ucast (x :: 16 word) :: 32 word) = unat x"
proof -
  have "unat x < 2 ^ 16" using unsigned_less [of x, where 'a = nat] by simp
  then show ?thesis
    by (simp add: unsigned_ucast_eq take_bit_eq_mod)
qed

lemma unat_builtin_muluu: "unat (builtin_muluu a b) = unat a * unat b"
proof -
  have a: "unat a \<le> 65535" using unsigned_less [of a, where 'a = nat] by simp
  have b: "unat b \<le> 65535" using unsigned_less [of b, where 'a = nat] by simp
  have "unat a * unat b \<le> 65535 * 65535"
    using a b by (rule mult_le_mono)
  then have "unat (ucast a :: 32 word) * unat (ucast b :: 32 word) < 2 ^ LENGTH(32)"
    by (simp add: unat_ucast_16_32)
  then have "unat (ucast a * ucast b :: 32 word) = unat (ucast a :: 32 word) * unat (ucast b :: 32 word)"
    by (simp only: unat_mult_lem)
  then show ?thesis
    by (simp add: builtin_muluu_def unat_ucast_16_32)
qed

lemma unat_mulw_uu: "unat (mulw_uu a b) = unat a * unat b mod 65536"
  by (simp add: mulw_uu_def unat_word_ariths)

lemma unat_ULong_join: "unat (ULong_join hi lo) = unat hi * 65536 + unat lo"
proof -
  have hi: "unat hi \<le> 65535" using unsigned_less [of hi, where 'a = nat] by simp
  have lo: "unat lo \<le> 65535" using unsigned_less [of lo, where 'a = nat] by simp
  have "push_bit 16 (ucast hi :: 32 word) OR ucast lo = push_bit 16 (ucast hi) + ucast lo"
    by (rule disjunctive_add [symmetric])
      (auto simp add: bit_push_bit_iff bit_ucast_iff dest: bit_imp_le_length)
  then have "unat (ULong_join hi lo) = (unat hi * 65536 mod 4294967296 + unat lo) mod 4294967296"
    by (simp add: ULong_join_def unat_word_ariths push_bit_eq_mult unat_ucast_16_32)
  also have "\<dots> = unat hi * 65536 + unat lo"
    using hi lo by simp
  finally show ?thesis .
qed

lemma unat_mul_Q1616_Q16:
  "unat (mul_Q1616_Q16 a y) =
     (unat a div 65536 * unat y + unat a mod 65536 * unat y div 65536) mod 4294967296"
  by (simp add: mul_Q1616_Q16_def unat_word_ariths unat_ucast_16_32 unat_builtin_muluu
      unat_ULong_high unat_ULong_low)

lemma unat_mul_Q1616_UINT:
  "unat (mul_Q1616_UINT a y) =
     (unat a div 65536 * unat y mod 65536 + unat a mod 65536 * unat y div 65536) mod 65536 * 65536
       + unat a mod 65536 * unat y mod 65536"
  by (simp add: mul_Q1616_UINT_def Let_def unat_ULong_join unat_word_ariths unat_mulw_uu
      unat_builtin_muluu unat_ULong_high unat_ULong_low)

lemma join_partial_products:
  fixes ah al y :: nat
  shows "((ah * y mod 65536 + al * y div 65536) mod 65536 * 65536 + al * y mod 65536)
           mod 4294967296 = (ah * 65536 + al) * y mod 4294967296"
proof -
  have "(ah * y mod 65536 + al * y div 65536) mod 65536 * 65536
      = (ah * y + al * y div 65536) mod 65536 * 65536"
    by (simp add: mod_add_left_eq)
  also have "\<dots> = (ah * y + al * y div 65536) * 65536 mod (65536 * 65536)"
    by (simp only: mod_mult_mult2)
  finally have "((ah * y mod 65536 + al * y div 65536) mod 65536 * 65536 + al * y mod 65536)
      mod 4294967296
      = ((ah * y + al * y div 65536) * 65536 mod 4294967296 + al * y mod 65536) mod 4294967296"
    by simp
  also have "\<dots> = ((ah * y + al * y div 65536) * 65536 + al * y mod 65536) mod 4294967296"
    by (simp only: mod_add_left_eq)
  also have "(ah * y + al * y div 65536) * 65536 + al * y mod 65536
      = ah * y * 65536 + (al * y div 65536 * 65536 + al * y mod 65536)"
    by (simp add: algebra_simps)
  also have "\<dots> = ah * y * 65536 + al * y"
    by (simp only: div_mult_mod_eq)
  also have "\<dots> = (ah * 65536 + al) * y"
    by (simp add: algebra_simps)
  finally show ?thesis .
qed

lemma long_product_div:
  fixes a bh bl :: nat
  shows "a * (bh * 65536 + bl) div 65536 = a * bh + (a div 65536 * bl + a mod 65536 * bl div 65536)"
proof -
  define q r where "q = a div 65536" and "r = a mod 65536"
  have a: "a = q * 65536 + r"
    by (simp add: q_def r_def)
  have "a * (bh * 65536 + bl) = r * bl + (a * bh + q * bl) * 65536"
    by (simp add: a algebra_simps)
  then have "a * (bh * 65536 + bl) div 65536 = (r * bl + (a * bh + q * bl) * 65536) div 65536"
    by (rule arg_cong)
  also have "\<dots> = a * bh + q * bl + r * bl div 65536"
    by simp
  finally show ?thesis
    by (simp add: q_def r_def)
qed

text \<open>
  Claim C7: for all 32-bit unsigned Q16.16 operands, \<open>mul_Q1616_Q1616 a b\<close> is
  \<open>floor (a * b / 2^16) mod 2^32\<close>: the long multiplication over the 16-bit halves,
  with every carry beyond the 32-bit result discarded.
\<close>

theorem mul_Q1616_Q1616_value:
  "unat (mul_Q1616_Q1616 a b) = (unat a * unat b div 2 ^ 16) mod 2 ^ 32"
proof -
  define bh bl where "bh = unat b div 65536" and "bl = unat b mod 65536"
  have b: "unat b = bh * 65536 + bl"
    by (simp add: bh_def bl_def)
  have "unat (mul_Q1616_Q1616 a b)
      = (unat (mul_Q1616_UINT a (ULong_high b)) mod 4294967296
          + unat (mul_Q1616_Q16 a (ULong_low b)) mod 4294967296) mod 4294967296"
    by (simp add: mul_Q1616_Q1616_def unat_word_ariths mod_add_eq)
  also have "unat (mul_Q1616_UINT a (ULong_high b)) mod 4294967296
      = (unat a div 65536 * 65536 + unat a mod 65536) * bh mod 4294967296"
    by (simp only: unat_mul_Q1616_UINT unat_ULong_high join_partial_products bh_def)
  also have "unat (mul_Q1616_Q16 a (ULong_low b)) mod 4294967296
      = (unat a div 65536 * bl + unat a mod 65536 * bl div 65536) mod 4294967296"
    by (simp add: unat_mul_Q1616_Q16 unat_ULong_low bl_def)
  also have "unat a div 65536 * 65536 + unat a mod 65536 = unat a"
    by (simp only: div_mult_mod_eq)
  also have "(unat a * bh mod 4294967296
        + (unat a div 65536 * bl + unat a mod 65536 * bl div 65536) mod 4294967296) mod 4294967296
      = (unat a * bh + (unat a div 65536 * bl + unat a mod 65536 * bl div 65536)) mod 4294967296"
    by (simp only: mod_add_eq)
  also have "\<dots> = unat a * unat b div 65536 mod 4294967296"
    by (simp only: b long_product_div)
  finally show ?thesis by simp
qed

section \<open>Division\<close>

text \<open>
  Claim C2: the denominator being non-zero, \<open>div_Q16_Q16 0x8000 0x8000\<close>
  (0.5 / 0.5) returns exactly \<open>0x00010000\<close> (1.0 in Q16.16).
\<close>

theorem div_Q16_Q16_half_half:
  "(0x8000 :: Q16) \<noteq> 0 \<and> div_Q16_Q16 0x8000 0x8000 = Inr 0x00010000"
  by (simp add: div_Q16_Q16_def div_u_def divf_def ULong_join_def)

section \<open>Interpolation\<close>

lemma sint16_bounds: "- 32768 \<le> sint (y :: 16 word)" "sint y \<le> 32767"
  using sint_greater_eq [of y] sint_less [of y] by simp_all

lemma sint_word_of_int16:
  assumes "- 32768 \<le> r" "r \<le> 32767"
  shows "sint (word_of_int r :: 16 word) = r"
proof -
  have "signed_take_bit (LENGTH(16) - 1) r = r"
    using assms by (intro signed_take_bit_int_eq_self) simp_all
  then show ?thesis by (simp only: sint_sbintrunc')
qed

lemma acc_write_id:
  assumes "- 2147483648 \<le> v" "v < 2147483648"
  shows "acc_write c v = v"
proof -
  have "signed_take_bit 39 v = v"
    using assms by (intro signed_take_bit_int_eq_self) simp_all
  then show ?thesis
    using assms by (simp add: acc_write_def clamp_def)
qed

text \<open>
  The stored value is the high part of the accumulator or its successor, and the low
  word tells which.
\<close>

lemma sac_r_sint:
  assumes "- 2147483648 \<le> acc" "acc \<le> 2147418112"
  shows "sint (sac_r c acc) = acc div 65536 \<and> acc mod 65536 \<le> 32768 \<or>
         sint (sac_r c acc) = acc div 65536 + 1 \<and> 32768 \<le> acc mod 65536"
proof -
  define lo hi where "lo = acc mod 65536" and "hi = acc div 65536"
  define r where "r = (if 0x8000 < lo \<or> (lo = 0x8000 \<and> (RND c \<or> odd hi)) then hi + 1 else hi)"
  have acc: "acc = 65536 * hi + lo"
    by (simp add: lo_def hi_def)
  have lo: "0 \<le> lo" "lo < 65536"
    by (simp_all add: lo_def)
  have r: "r = hi \<and> lo \<le> 32768 \<or> r = hi + 1 \<and> 32768 \<le> lo"
    by (auto simp add: r_def)
  have "- 32768 \<le> hi"
    using assms(1) acc lo by linarith
  moreover have "hi \<le> 32767"
    using assms(2) acc lo by linarith
  moreover have "hi \<le> 32766" if "32768 \<le> lo"
    using that assms(2) acc by linarith
  ultimately have range: "- 32768 \<le> r" "r \<le> 32767"
    using r by auto
  have "clamp (- (2 ^ 15)) (2 ^ 15 - 1) r = r"
    using range by (simp add: clamp_def)
  moreover have "sac_r c acc =
      (if SATDW c then word_of_int (clamp (- (2 ^ 15)) (2 ^ 15 - 1) r) else word_of_int r)"
    by (auto simp add: sac_r_def Let_def r_def lo_def hi_def)
  ultimately have "sac_r c acc = word_of_int r"
    by simp
  then have "sint (sac_r c acc) = r"
    using range by (simp add: sint_word_of_int16)
  then show ?thesis
    using r by (simp add: lo_def hi_def)
qed

lemma interpLinear_at_0: "interpLinear c y1 y2 0 = y1"
proof -
  have b: "- 2147483648 \<le> sint y1 * 65536" "sint y1 * 65536 < 2147483648"
    using sint16_bounds [of y1] by simp_all
  have A: "mac c (msc c (lac y1) y1 0) y2 0 = sint y1 * 65536"
    using b by (simp add: lac_def msc_def mac_def acc_write_id)
  have "clamp (- (2 ^ 15)) (2 ^ 15 - 1) (sint y1) = sint y1"
    using sint16_bounds [of y1] by (simp add: clamp_def)
  then have "sac_r c (sint y1 * 65536) = word_of_int (sint y1)"
    by (simp add: sac_r_def Let_def)
  then show ?thesis
    by (simp add: interpLinear_def A)
qed

lemma interpLinear_acc_at_top:
  "mac c (msc c (lac y1) y1 0x7FFF) y2 0x7FFF = 65536 * sint y2 + 2 * (sint y1 - sint y2)"
proof -
  have b1: "- 2147483648 \<le> 2 * sint y1" "2 * sint y1 < 2147483648"
    using sint16_bounds [of y1] by simp_all
  have "msc c (lac y1) y1 0x7FFF = acc_write c (2 * sint y1)"
    by (simp add: lac_def msc_def)
  then have m: "msc c (lac y1) y1 0x7FFF = 2 * sint y1"
    using b1 by (simp add: acc_write_id)
  have b2: "- 2147483648 \<le> 2 * sint y1 + 65534 * sint y2"
    "2 * sint y1 + 65534 * sint y2 < 2147483648"
    using sint16_bounds [of y1] sint16_bounds [of y2] by simp_all
  have "mac c (2 * sint y1) y2 0x7FFF = acc_write c (2 * sint y1 + 65534 * sint y2)"
    by (simp add: mac_def)
  then have "mac c (2 * sint y1) y2 0x7FFF = 2 * sint y1 + 65534 * sint y2"
    using b2 by (simp add: acc_write_id)
  then show ?thesis by (simp add: m)
qed

lemma interpLinear_at_top:
  fixes c :: CORCON and y1 y2 :: Q15
  defines "y \<equiv> sint (interpLinear c y1 y2 0xFFFF)"
  shows "\<bar>y - sint y2\<bar> \<le> 2"
    and "\<bar>sint y1 - sint y2\<bar> < 49152 \<Longrightarrow> \<bar>y - sint y2\<bar> \<le> 1"
proof -
  define d where "d = 2 * (sint y1 - sint y2)"
  define A where "A = 65536 * sint y2 + d"
  have y: "y = sint (sac_r c A)"
    by (simp add: y_def interpLinear_def interpLinear_acc_at_top A_def d_def)
  have A2: "A = 2 * sint y1 + 65534 * sint y2"
    by (simp add: A_def d_def)
  have "- 2147483648 \<le> A" "A \<le> 2147418112"
    using sint16_bounds [of y1] sint16_bounds [of y2] by (simp_all add: A2)
  then have "y = A div 65536 \<and> A mod 65536 \<le> 32768 \<or>
      y = A div 65536 + 1 \<and> 32768 \<le> A mod 65536"
    unfolding y by (rule sac_r_sint)
  moreover have "A div 65536 = sint y2 + d div 65536"
    by (simp add: A_def)
  moreover have "A mod 65536 = d mod 65536"
    by (simp add: A_def)
  ultimately have cases: "y = sint y2 + d div 65536 \<and> d mod 65536 \<le> 32768 \<or>
      y = sint y2 + d div 65536 + 1 \<and> 32768 \<le> d mod 65536"
    by simp
  have dm: "d = 65536 * (d div 65536) + d mod 65536" "0 \<le> d mod 65536" "d mod 65536 < 65536"
    by simp_all
  have db: "- 131070 \<le> d" "d \<le> 131070"
    using sint16_bounds [of y1] sint16_bounds [of y2] by (simp_all add: d_def)
  have q: "- 2 \<le> d div 65536" "d div 65536 \<le> 1"
    using dm db by linarith+
  show "\<bar>y - sint y2\<bar> \<le> 2"
    using cases q by linarith
  show "\<bar>y - sint y2\<bar> \<le> 1" if "\<bar>sint y1 - sint y2\<bar> < 49152"
  proof -
    have dn: "- 98304 < d" "d < 98304"
      using that by (simp_all add: d_def)
    have "d div 65536 = - 2 \<Longrightarrow> 32768 < d mod 65536"
      using dm dn by linarith
    moreover have "d div 65536 = 1 \<Longrightarrow> d mod 65536 < 32768"
      using dm dn by linarith
    ultimately show ?thesis
      using cases q by linarith
  qed
qed

text \<open>
  Claim C8, as stated: \<open>interpLinear y1 y2 0\<close> is exactly \<open>y1\<close>, and at the top of
  the range, \<open>x = 0xFFFF\<close>, the result is \<open>y2\<close> within 1 LSB. The position reaches
  the multiplier as \<open>x >> 1 = 0x7FFF\<close>, so the result is \<open>y2 + (y1 - y2) / 32768\<close>
  rounded, which is 2 LSB away from \<open>y2\<close> for far apart end points.
\<close>

theorem interpLinear_top_two_lsb:
  "sint (interpLinear CORCON_reset 0x7FFF 0x8000 0xFFFF) = - 32766 \<and>
   \<not> \<bar>sint (interpLinear CORCON_reset 0x7FFF 0x8000 0xFFFF) - sint (0x8000 :: Q15)\<bar> \<le> 1"
proof -
  have "interpLinear CORCON_reset 0x7FFF 0x8000 0xFFFF = 0x8002"
    by (simp add: interpLinear_def lac_def msc_def mac_def sac_r_def acc_write_def clamp_def
        CORCON_reset_def)
  then show ?thesis by simp
qed

text \<open>
  Claim C8, amended: for all Q0.15 values \<open>y1\<close> and \<open>y2\<close> and every rounding and
  saturation mode, \<open>interpLinear y1 y2 0\<close> is exactly \<open>y1\<close>; at \<open>x = 0xFFFF\<close> the
  result is \<open>y2\<close> within 2 LSB, and within 1 LSB when \<open>y1\<close> and \<open>y2\<close> differ by
  less than \<open>49152\<close>.
\<close>

theorem interpLinear_boundaries:
  "interpLinear c y1 y2 0 = y1 \<and>
   \<bar>sint (interpLinear c y1 y2 0xFFFF) - sint y2\<bar> \<le> 2 \<and>
   (\<bar>sint y1 - sint y2\<bar> < 49152 \<longrightarrow> \<bar>sint (interpLinear c y1 y2 0xFFFF) - sint y2\<bar> \<le> 1)"
  by (simp add: interpLinear_at_0 interpLinear_at_top)

theorem interpLinear_boundaries_witness:
  "\<bar>sint (100 :: Q15) - sint (200 :: Q15)\<bar> < 49152 \<and>
   interpLinear CORCON_reset 100 200 0 = 100 \<and>
   \<bar>sint (interpLinear CORCON_reset 100 200 0xFFFF) - sint (200 :: Q15)\<bar> \<le> 1"
  using interpLinear_boundaries [of CORCON_reset 100 200] by simp

section \<open>Sine\<close>

lemma all_pairs_nth:
  "all_pairs P xs \<Longrightarrow> 2 * i + 1 < length xs \<Longrightarrow> P (xs ! (2 * i)) (xs ! (2 * i + 1))"
proof (induction P xs arbitrary: i rule: all_pairs.induct)
  case (1 P dy y0 rest)
  show ?case
  proof (cases i)
    case 0
    then show ?thesis using 1 by simp
  next
    case (Suc j)
    then have "P (rest ! (2 * j)) (rest ! (2 * j + 1))"
      using 1 by simp
    then show ?thesis using Suc by simp
  qed
qed simp_all

lemma length_table: "length table = 512"
  by (simp add: table_def)

lemma table_segments: "all_pairs segment_in_range table"
  by (simp add: table_def segment_in_range_def)

lemma sint32: "sint (p :: 32 word) = (if uint p < 2147483648 then uint p else uint p - 4294967296)"
proof -
  have b: "0 \<le> uint p" "uint p < 4294967296"
    using uint_lt2p [of p] by simp_all
  have s: "sint p = (uint p + 2147483648) mod 4294967296 - 2147483648"
    by (simp add: sint_uint signed_take_bit_eq_take_bit_shift take_bit_eq_mod)
  show ?thesis
  proof (cases "uint p < 2147483648")
    case True
    then have "(uint p + 2147483648) mod 4294967296 = uint p + 2147483648"
      using b by (intro mod_pos_pos_trivial) simp_all
    then show ?thesis using True s by simp
  next
    case False
    then have "(uint p + 2147483648) mod 4294967296 = uint p - 2147483648"
      using b by (intro int_mod_pos_eq [where q = 1]) simp_all
    then show ?thesis using False s by simp
  qed
qed

lemma uint_ULong_high: "uint (ULong_high p) = uint p div 65536"
proof -
  have "int (unat (ULong_high p)) = int (unat p div 65536)"
    by (simp only: unat_ULong_high)
  then show ?thesis by (simp add: zdiv_int)
qed

lemma sint_ULong_high: "sint (ULong_high p) = sint p div 65536"
proof -
  define P where "P = uint p"
  have b: "0 \<le> P" "P < 4294967296"
    using uint_lt2p [of p] by (simp_all add: P_def)
  have P: "P = 65536 * (P div 65536) + P mod 65536"
    by simp
  have r: "0 \<le> P mod 65536" "P mod 65536 < 65536"
    by simp_all
  show ?thesis
  proof (cases "P < 2147483648")
    case True
    then have "P div 65536 < 32768" by simp
    then show ?thesis
      using True by (simp add: sint16 sint32 uint_ULong_high flip: P_def)
  next
    case False
    then have h: "\<not> P div 65536 < 32768" by simp
    have "P - 4294967296 = 65536 * (P div 65536 - 65536) + P mod 65536"
      using P by simp
    then have "(P - 4294967296) div 65536 = P div 65536 - 65536"
      using r by (rule int_div_pos_eq)
    then show ?thesis
      using False h by (simp add: sint16 sint32 uint_ULong_high flip: P_def)
  qed
qed

lemma sint_mul_us: "sint (mul_us wb ws) = uint wb * sint ws"
proof -
  have u: "0 \<le> uint wb" "uint wb \<le> 65535"
    using uint_lt2p [of wb] by simp_all
  have s: "\<bar>sint ws\<bar> \<le> 32768"
    using sint_greater_eq [of ws] sint_less [of ws] by simp
  have "\<bar>uint wb * sint ws\<bar> = uint wb * \<bar>sint ws\<bar>"
    using u by (simp add: abs_mult)
  also have "\<dots> \<le> 65535 * 32768"
    using u s by (intro mult_mono) simp_all
  finally have "- (2 ^ 31) \<le> uint wb * sint ws" "uint wb * sint ws < 2 ^ 31"
    by simp_all
  then have "signed_take_bit 31 (uint wb * sint ws) = uint wb * sint ws"
    by (rule signed_take_bit_int_eq_self)
  moreover have "sint (ucast wb :: 32 word) = uint wb"
  proof -
    have "- 2147483648 \<le> uint wb" "uint wb < 2147483648"
      using u by linarith+
    then have "signed_take_bit 31 (uint wb) = uint wb"
      by (intro signed_take_bit_int_eq_self) simp_all
    then show ?thesis by (simp add: signed_ucast_eq)
  qed
  moreover have "sint (scast ws :: 32 word) = sint ws"
    by (simp add: sint_up_scast is_up)
  ultimately show ?thesis
    by (simp add: mul_us_def sint_word_ariths)
qed

lemma sin_Q15_unfold:
  "sin_Q15 x =
     ULong_high (mul_us (push_bit 8 x) (table ! (2 * (unat x div 256))))
       + table ! (2 * (unat x div 256) + 1)"
proof -
  have "unat x < 65536" using unsigned_less [of x, where 'a = nat] by simp
  then have i: "unat x div 256 < 256" by simp
  have off: "unat (push_bit 2 (drop_bit 8 x)) = 4 * (unat x div 256)"
    using i
    by (simp add: unsigned_push_bit_eq take_bit_eq_mod push_bit_eq_mult unat_drop_bit_eq
        drop_bit_eq_div unat_word_ariths unat_div_distrib)
  have "4 * (unat x div 256) div 2 = 2 * (unat x div 256)"
    "(4 * (unat x div 256) + 2) div 2 = 2 * (unat x div 256) + 1"
    by simp_all
  then show ?thesis
    by (simp only: sin_Q15_def Let_def off add_0)
qed

lemma uint_push_bit_8: "uint (push_bit 8 (x :: 16 word)) = 256 * (uint x mod 256)"
proof -
  have "uint (push_bit 8 x) = 256 * uint x mod (256 * 256)"
    by (simp add: unsigned_push_bit_eq take_bit_eq_mod push_bit_eq_mult mult.commute
        uint_word_ariths)
  also have "\<dots> = 256 * (uint x mod 256)"
    by (simp only: mult_mod_right)
  finally show ?thesis .
qed

lemma segment_offset_bounds:
  fixes dy f :: int
  assumes "0 \<le> f" "f \<le> 255"
  shows "min 0 (dy * 255 div 256) \<le> dy * f div 256" "dy * f div 256 \<le> max 0 (dy * 255 div 256)"
proof -
  show "min 0 (dy * 255 div 256) \<le> dy * f div 256"
  proof (cases "0 \<le> dy")
    case True
    then have "0 \<le> dy * f" using assms by simp
    then have "0 \<le> dy * f div 256" by simp
    then show ?thesis by simp
  next
    case False
    then have "dy * 255 \<le> dy * f"
      using assms by (intro mult_left_mono_neg) simp_all
    then have "dy * 255 div 256 \<le> dy * f div 256"
      by (intro zdiv_mono1) simp_all
    then show ?thesis by simp
  qed
  show "dy * f div 256 \<le> max 0 (dy * 255 div 256)"
  proof (cases "0 \<le> dy")
    case True
    then have "dy * f \<le> dy * 255"
      using assms by (intro mult_left_mono) simp_all
    then have "dy * f div 256 \<le> dy * 255 div 256"
      by (intro zdiv_mono1) simp_all
    then show ?thesis by simp
  next
    case False
    then have "dy * f \<le> 0"
      using assms by (simp add: mult_le_0_iff)
    then have "dy * f div 256 \<le> 0 div 256"
      by (intro zdiv_mono1) simp_all
    then show ?thesis by simp
  qed
qed

lemma sin_Q15_sint:
  fixes x :: Q15
  defines "dy \<equiv> sint (table ! (2 * (unat x div 256)))"
    and "y0 \<equiv> sint (table ! (2 * (unat x div 256) + 1))"
    and "f \<equiv> uint x mod 256"
  shows "sint (sin_Q15 x) = y0 + dy * f div 256"
    and "- 32767 \<le> y0 + dy * f div 256"
    and "y0 + dy * f div 256 \<le> 32767"
proof -
  have "unat x < 65536" using unsigned_less [of x, where 'a = nat] by simp
  then have "unat x div 256 < 256" by simp
  then have "2 * (unat x div 256) + 1 < length table"
    by (simp add: length_table)
  with table_segments
  have "segment_in_range (table ! (2 * (unat x div 256))) (table ! (2 * (unat x div 256) + 1))"
    by (rule all_pairs_nth)
  then have seg: "- 32767 \<le> y0 + min 0 (dy * 255 div 256)"
    "y0 + max 0 (dy * 255 div 256) \<le> 32767"
    by (simp_all add: segment_in_range_def dy_def y0_def)
  have f: "0 \<le> f" "f \<le> 255"
    by (simp_all add: f_def)
  have lo: "min 0 (dy * 255 div 256) \<le> dy * f div 256"
    and hi: "dy * f div 256 \<le> max 0 (dy * 255 div 256)"
    using f by (rule segment_offset_bounds)+
  show r1: "- 32767 \<le> y0 + dy * f div 256"
    using seg(1) lo by linarith
  show r2: "y0 + dy * f div 256 \<le> 32767"
    using seg(2) hi by linarith
  have "sint (ULong_high (mul_us (push_bit 8 x) (table ! (2 * (unat x div 256)))))
      = 256 * f * dy div (256 * 256)"
    by (simp add: sint_ULong_high sint_mul_us uint_push_bit_8 dy_def f_def)
  also have "\<dots> = 256 * (f * dy) div (256 * 256)"
    by (simp only: mult.assoc)
  also have "\<dots> = f * dy div 256"
    by (simp only: div_mult_mult1_if) simp
  finally have w3: "sint (ULong_high (mul_us (push_bit 8 x) (table ! (2 * (unat x div 256)))))
      = dy * f div 256"
    by (simp add: mult.commute)
  have st: "signed_take_bit (LENGTH(16) - 1) (dy * f div 256 + y0) = dy * f div 256 + y0"
    using r1 r2 by (intro signed_take_bit_int_eq_self) simp_all
  have "sint (sin_Q15 x)
      = signed_take_bit (LENGTH(16) - 1)
          (sint (ULong_high (mul_us (push_bit 8 x) (table ! (2 * (unat x div 256)))))
            + sint (table ! (2 * (unat x div 256) + 1)))"
    by (simp only: sin_Q15_unfold sint_word_ariths)
  also have "\<dots> = signed_take_bit (LENGTH(16) - 1) (dy * f div 256 + y0)"
    by (simp only: w3 y0_def)
  also note st
  finally show "sint (sin_Q15 x) = y0 + dy * f div 256"
    by (simp only: add.commute)
qed

text \<open>
  Claim C1: at the key phases, \<open>sin_Q15 0\<close> is exactly 0, \<open>sin_Q15 0x4000\<close>
  (phase 0.5) is \<open>0x7FFF\<close> within 1 LSB, and \<open>sin_Q15 (- 0x8000)\<close> (phase -1) is 0
  within 1 LSB.
\<close>

theorem sin_Q15_key_phases:
  "sin_Q15 0 = 0 \<and>
   \<bar>sint (sin_Q15 0x4000) - 0x7FFF\<bar> \<le> 1 \<and>
   \<bar>sint (sin_Q15 (- 0x8000))\<bar> \<le> 1"
proof -
  have "sin_Q15 0 = 0"
    by (simp add: sin_Q15_def table_def mul_us_def ULong_high_def)
  moreover have "sin_Q15 0x4000 = 0x7FFF"
    by (simp add: sin_Q15_def table_def mul_us_def ULong_high_def)
  moreover have "sin_Q15 (- 0x8000) = 0"
    by (simp add: sin_Q15_def table_def mul_us_def ULong_high_def)
  ultimately show ?thesis by simp
qed

lemma nonincreasing_Cons2:
  "sorted (rev [x])"
  "sorted (rev (x # y # zs)) = (y \<le> x \<and> sorted (rev (y # zs)))"
  by (auto simp add: sorted_append)

lemma length_intercepts: "length intercepts = 256"
  by (simp add: intercepts_def table_def)

lemma intercepts_turning_points:
  "intercepts ! 64 = 32767" "intercepts ! 65 = 32757"
  "intercepts ! 192 = - 32767" "intercepts ! 193 = - 32757"
  by (simp_all add: intercepts_def table_def)

text \<open>
  Claim C9, as stated: the intercept sequence of the sine table, in index order, is
  non-decreasing and then non-increasing. The table covers a whole period starting at
  phase 0, so the sequence falls from index 64 and rises again from index 192.
\<close>

theorem intercepts_not_up_then_down: "\<not> up_then_down intercepts"
proof
  assume "up_then_down intercepts"
  then obtain k where k: "k < 257"
    and up: "sorted (take k intercepts)"
    and down: "sorted (rev (drop k intercepts))"
    by (auto simp add: up_then_down_def list_ex_iff length_intercepts)
  show False
  proof (cases "66 \<le> k")
    case True
    then have "65 < length (take k intercepts)"
      using k by (simp add: length_intercepts)
    with up have "take k intercepts ! 64 \<le> take k intercepts ! 65"
      by (intro sorted_nth_mono) simp_all
    then show False
      using True by (simp add: intercepts_turning_points)
  next
    case False
    then have "193 - k < length (drop k intercepts)"
      by (simp add: length_intercepts)
    with down have "drop k intercepts ! (193 - k) \<le> drop k intercepts ! (192 - k)"
      by (intro sorted_rev_nth_mono) simp_all
    moreover have "k + (193 - k) = 193" "k + (192 - k) = 192"
      using False by simp_all
    ultimately show False
      by (simp add: length_intercepts intercepts_turning_points)
  qed
qed

text \<open>
  Claim C9, amended: the intercept sequence is non-decreasing over the indices 0 to 64,
  non-increasing over 64 to 192 and non-decreasing again over 192 to 255, as one sine
  period starting at phase 0.
\<close>

theorem intercepts_one_period:
  "length intercepts = 256 \<and>
   sorted (take 65 intercepts) \<and>
   sorted (rev (take 129 (drop 64 intercepts))) \<and>
   sorted (drop 192 intercepts)"
  by (simp add: intercepts_def table_def sorted2_simps nonincreasing_Cons2
      del: sorted_wrt.simps(2) rev.simps(2))

text \<open>
  Claim C10: for every 16-bit input the result of \<open>sin_Q15\<close> lies in
  \<open>[- 32767, 32767]\<close>; it is never \<open>0x8000\<close>, so that it can always be negated.
\<close>

theorem sin_Q15_range:
  "- 32767 \<le> sint (sin_Q15 x) \<and> sint (sin_Q15 x) \<le> 32767 \<and> sin_Q15 x \<noteq> 0x8000"
proof -
  have r: "- 32767 \<le> sint (sin_Q15 x)" "sint (sin_Q15 x) \<le> 32767"
    using sin_Q15_sint(2,3) [of x] by (simp_all add: sin_Q15_sint(1))
  have "sin_Q15 x \<noteq> 0x8000"
  proof
    assume "sin_Q15 x = 0x8000"
    then have "sint (sin_Q15 x) = sint (0x8000 :: Q15)" by (rule arg_cong)
    then show False using r(1) by simp
  qed
  with r show ?thesis by simp
qed

end
